theory Spec2Isabelle
  imports Main "HOL-Library.Word"
begin

unbundle bit_operations_syntax

section \<open>Python values\<close>

text \<open>
  A \<open>bytes\<close> object is a list of octets. Python's unbounded \<open>int\<close> is \<open>int\<close>. A Python
  \<open>float\<close> is an IEEE-754 binary64 value and is carried as its 64 bits, so that two
  floats are the same value exactly when the words are equal.
\<close>

type_synonym bytes = "8 word list"

text \<open>
  The exceptions that the connection code can meet. \<open>ConnectionDataFetchException\<close>
  carries its cause, as the constructor call in \<open>_run\<close> does. \<open>StructError\<close> is
  \<open>struct.error\<close>. \<open>OtherException\<close> stands for whatever else a transport or a callback
  raises that derives from \<open>Exception\<close>; \<open>OtherBaseException\<close> for what derives from
  \<open>BaseException\<close> only (\<open>KeyboardInterrupt\<close>, \<open>SystemExit\<close>), as \<open>CancelledError\<close> does.
\<close>

datatype exn =
    AttributeError
  | IndexError
  | StructError
  | OverflowError
  | CancelledError
  | PacketSizeTooBigException
  | ConnectionDataFetchException exn
  | OtherException nat
  | OtherBaseException nat

text \<open>What an \<open>except Exception\<close> clause catches.\<close>

fun is_Exception :: "exn \<Rightarrow> bool" where
  "is_Exception CancelledError = False"
| "is_Exception (OtherBaseException _) = False"
| "is_Exception _ = True"

section \<open>IEEE-754 binary32 and binary64\<close>

text \<open>
  A floating-point datum read as its three fields: sign, biased exponent, fraction. With
  \<open>eb\<close> exponent bits and \<open>mb\<close> fraction bits the datum is the number
  \<open>sign * 2 ^ (eb + mb) + exponent * 2 ^ mb + fraction\<close>.
\<close>

type_synonym fields = "bool \<times> nat \<times> nat"

definition fields_nat :: "nat \<Rightarrow> nat \<Rightarrow> fields \<Rightarrow> nat" where
  "fields_nat eb mb x =
     (case x of (s, e, m) \<Rightarrow> (if s then 2 ^ (eb + mb) else 0) + e * 2 ^ mb + m)"

definition nat_fields :: "nat \<Rightarrow> nat \<Rightarrow> nat \<Rightarrow> fields" where
  "nat_fields eb mb n = (2 ^ (eb + mb) \<le> n, n div 2 ^ mb mod 2 ^ eb, n mod 2 ^ mb)"

definition decode32 :: "32 word \<Rightarrow> fields" where
  "decode32 w = nat_fields 8 23 (unat w)"

definition encode32 :: "fields \<Rightarrow> 32 word" where
  "encode32 x = word_of_nat (fields_nat 8 23 x)"

definition decode64 :: "64 word \<Rightarrow> fields" where
  "decode64 w = nat_fields 11 52 (unat w)"

definition encode64 :: "fields \<Rightarrow> 64 word" where
  "encode64 x = word_of_nat (fields_nat 11 52 x)"

text \<open>Python's \<open>int.bit_length\<close> on a natural number.\<close>

fun bit_length :: "nat \<Rightarrow> nat" where
  "bit_length n = (if n = 0 then 0 else Suc (bit_length (n div 2)))"

text \<open>\<open>n / 2 ^ k\<close> rounded to the nearest integer, ties to even.\<close>

definition round_half_even :: "nat \<Rightarrow> nat \<Rightarrow> nat" where
  "round_half_even n k =
     (let d = n div 2 ^ k; r = n mod 2 ^ k
      in if 2 ^ k < 2 * r \<or> (2 * r = 2 ^ k \<and> odd d) then d + 1 else d)"

text \<open>
  What packing a Python float with the \<open>f\<close> format does to the value: the C conversion
  \<open>(float)x\<close>, round to nearest even, and \<open>OverflowError\<close> when a finite double becomes
  an infinity. A NaN keeps its sign and the upper fraction bits and comes out quiet (the
  top fraction bit set); a double below the binary32 range becomes a subnormal or zero.
  For a finite double with exponent field \<open>e > 0\<close> the significand \<open>2 ^ 52 + m\<close> is
  rounded at the position of the last binary32 fraction bit, and the sum
  \<open>(e - 897) * 2 ^ 23 + q\<close> carries a rounded-up significand into the exponent.
\<close>

definition double_to_float :: "fields \<Rightarrow> exn + fields" where
  "double_to_float x =
     (case x of (s, e, m) \<Rightarrow>
        if e = 2047 then
          (if m = 0 then Inr (s, 255, 0)
           else Inr (s, 255, m div 2 ^ 29 mod 2 ^ 22 + 2 ^ 22))
        else if e = 0 then Inr (s, 0, 0)
        else
          (let shift = (if e \<le> 897 then 926 - e else 29);
               q = round_half_even (2 ^ 52 + m) shift;
               bits = (e - 897) * 2 ^ 23 + q
           in if 255 * 2 ^ 23 \<le> bits then Inl OverflowError
              else Inr (s, bits div 2 ^ 23, bits mod 2 ^ 23)))"

text \<open>
  What unpacking the \<open>f\<close> format does: the C conversion \<open>(double)y\<close>, which is exact on
  numbers and infinities and makes every NaN quiet.
\<close>

definition float_to_double :: "fields \<Rightarrow> fields" where
  "float_to_double x =
     (case x of (s, e, m) \<Rightarrow>
        if e = 255 then
          (if m = 0 then (s, 2047, 0) else (s, 2047, (m mod 2 ^ 22 + 2 ^ 22) * 2 ^ 29))
        else if e = 0 then
          (if m = 0 then (s, 0, 0)
           else (s, bit_length m + 873, m * 2 ^ (53 - bit_length m) - 2 ^ 52))
        else (s, e + 896, m * 2 ^ 29))"

section \<open>The struct formats used by the protocol\<close>

text \<open>\<open>struct.pack(">H", h)\<close>: two octets, most significant first; out of range raises.\<close>

definition struct_pack_H :: "int \<Rightarrow> exn + bytes" where
  "struct_pack_H h =
     (if 0 \<le> h \<and> h \<le> 65535
      then Inr [word_of_int (h div 256), word_of_int (h mod 256)]
      else Inl StructError)"

text \<open>The \<open>B\<close> field: one octet; a value outside \<open>0..255\<close> raises \<open>struct.error\<close>.\<close>

definition struct_pack_B :: "int \<Rightarrow> exn + bytes" where
  "struct_pack_B b =
     (if 0 \<le> b \<and> b \<le> 255 then Inr [word_of_int b] else Inl StructError)"

text \<open>Four octets, most significant first, and back.\<close>

definition be32_bytes :: "32 word \<Rightarrow> bytes" where
  "be32_bytes w =
     [ucast (drop_bit 24 w), ucast (drop_bit 16 w), ucast (drop_bit 8 w), ucast w]"

definition be32_word :: "8 word \<Rightarrow> 8 word \<Rightarrow> 8 word \<Rightarrow> 8 word \<Rightarrow> 32 word" where
  "be32_word a b c d =
     push_bit 24 (ucast a) OR push_bit 16 (ucast b) OR push_bit 8 (ucast c) OR ucast d"

text \<open>
  The \<open>f\<close> field with \<open>></\<close>: the float is converted to binary32 and written big-endian;
  reading converts the four octets back to a Python float.
\<close>

definition struct_pack_f :: "64 word \<Rightarrow> exn + bytes" where
  "struct_pack_f t =
     (case double_to_float (decode64 t) of
        Inl e \<Rightarrow> Inl e
      | Inr y \<Rightarrow> Inr (be32_bytes (encode32 y)))"

definition struct_unpack_f :: "8 word \<Rightarrow> 8 word \<Rightarrow> 8 word \<Rightarrow> 8 word \<Rightarrow> 64 word" where
  "struct_unpack_f a b c d = encode64 (float_to_double (decode32 (be32_word a b c d)))"

text \<open>
  \<open>struct.pack(">H B f", h, b, t)\<close>: seven octets, no padding; the arguments are
  converted in order.
\<close>

definition struct_pack_HBf :: "int \<Rightarrow> int \<Rightarrow> 64 word \<Rightarrow> exn + bytes" where
  "struct_pack_HBf h b t =
     (case struct_pack_H h of
        Inl e \<Rightarrow> Inl e
      | Inr hs \<Rightarrow>
          (case struct_pack_B b of
             Inl e \<Rightarrow> Inl e
           | Inr bs \<Rightarrow>
               (case struct_pack_f t of
                  Inl e \<Rightarrow> Inl e
                | Inr fs \<Rightarrow> Inr (hs @ bs @ fs))))"

text \<open>\<open>struct.unpack('>H', buf)\<close>: the buffer must hold exactly two octets.\<close>

definition struct_unpack_H :: "bytes \<Rightarrow> exn + int" where
  "struct_unpack_H buf =
     (if length buf = 2 then Inr (uint (buf ! 0) * 256 + uint (buf ! 1))
      else Inl StructError)"

text \<open>\<open>struct.unpack('>H B f', buf)\<close>: the buffer must hold exactly seven octets.\<close>

definition struct_unpack_HBf :: "bytes \<Rightarrow> exn + (int \<times> int \<times> 64 word)" where
  "struct_unpack_HBf buf =
     (if length buf = 7
      then Inr (uint (buf ! 0) * 256 + uint (buf ! 1),
                uint (buf ! 2),
                struct_unpack_f (buf ! 3) (buf ! 4) (buf ! 5) (buf ! 6))
      else Inl StructError)"

section \<open>The connection object\<close>

text \<open>
  The background task created by \<open>asyncio.create_task\<close>. It is \<open>Pending\<close> while the
  loop is alive, \<open>Ended\<close> once the loop has been left through a cancellation, and
  \<open>Failed\<close> once \<open>_run\<close> has raised. \<open>cancel_requested\<close> is set by \<open>Task.cancel()\<close> and
  seen by the loop where it is suspended in \<open>asyncio.sleep\<close>.
\<close>

datatype task_status = Pending | Ended | Failed exn

record asyncio_task =
  status :: task_status
  cancel_requested :: bool

text \<open>
  The attributes of a \<open>Connection\<close> instance. \<open>queue\<close> is \<open>_queue\<close> and \<open>task\<close> is
  \<open>_task\<close>. An attribute that has not been assigned on the instance is \<open>None\<close>: the
  class body only annotates \<open>_queue: List[bytes]\<close>, which creates no attribute, so any
  read of \<open>self._queue\<close> before an assignment raises \<open>AttributeError\<close>. The two callbacks
  return normally or raise. The \<open>interval\<close> attribute is only handed to
  \<open>asyncio.sleep\<close> and is left out.
\<close>

record conn =
  on_command_payload :: "int \<Rightarrow> 64 word \<Rightarrow> exn + unit"
  on_binary_payload :: "bytes \<Rightarrow> exn + unit"
  task :: "asyncio_task option"
  queue :: "bytes list option"

text \<open>
  \<open>Connection.__init__\<close>: stores the callbacks and creates the task. Nothing assigns
  \<open>_queue\<close>.
\<close>

definition Connection_init ::
  "(int \<Rightarrow> 64 word \<Rightarrow> exn + unit) \<Rightarrow> (bytes \<Rightarrow> exn + unit) \<Rightarrow> conn" where
  "Connection_init cmd_cb bin_cb =
     \<lparr>on_command_payload = cmd_cb, on_binary_payload = bin_cb,
      task = Some \<lparr>status = Pending, cancel_requested = False\<rparr>,
      queue = None\<rparr>"

text \<open>
  What one tick sees of the concrete transport: the outcome of \<open>self._check()\<close> and the
  outcome of \<open>self._send_data(data)\<close> for each \<open>data\<close>.
\<close>

record transport =
  check :: "exn + bytes option"
  send_data :: "bytes \<Rightarrow> exn + bool"

text \<open>The calls that leave the engine, in the order in which they are made.\<close>

datatype event =
    HandleData bytes
  | OnCommandPayload int "64 word"
  | OnBinaryPayload bytes
  | SendData bytes

section \<open>Sending\<close>

text \<open>
  The line shared by both send methods:
  \<open>self._queue.insert(0, payload) if send_immediately else self._queue.append(payload)\<close>.
\<close>

definition enqueue :: "bytes \<Rightarrow> bool \<Rightarrow> conn \<Rightarrow> exn + conn" where
  "enqueue payload send_immediately s =
     (case queue s of
        None \<Rightarrow> Inl AttributeError
      | Some q \<Rightarrow>
          Inr (s\<lparr>queue := Some (if send_immediately then payload # q else q @ [payload])\<rparr>))"

definition send_command :: "int \<Rightarrow> 64 word \<Rightarrow> bool \<Rightarrow> conn \<Rightarrow> exn + conn" where
  "send_command command throttle send_immediately s =
     (case struct_pack_HBf 0xEEAF command throttle of
        Inl e \<Rightarrow> Inl e
      | Inr payload \<Rightarrow> enqueue payload send_immediately s)"

definition send_binary_payload :: "bytes \<Rightarrow> bool \<Rightarrow> conn \<Rightarrow> exn + conn" where
  "send_binary_payload binary_payload send_immediately s =
     (case struct_pack_H 0xEEAE of
        Inl e \<Rightarrow> Inl e
      | Inr magic \<Rightarrow> enqueue (magic @ binary_payload) send_immediately s)"

section \<open>Receiving\<close>

text \<open>
  \<open>_handle_data\<close>: the header is unpacked from \<open>payload[:2]\<close>; the \<open>match\<close> has two cases
  and no default, so any other header returns without a call.
\<close>

definition handle_data :: "conn \<Rightarrow> bytes \<Rightarrow> (exn + unit) \<times> event list" where
  "handle_data s payload =
     (case struct_unpack_H (take 2 payload) of
        Inl e \<Rightarrow> (Inl e, [])
      | Inr header \<Rightarrow>
          if header = 0xEEAF then
            (case struct_unpack_HBf payload of
               Inl e \<Rightarrow> (Inl e, [])
             | Inr (_, command, throttle) \<Rightarrow>
                 (on_command_payload s command throttle,
                  [OnCommandPayload command throttle]))
          else if header = 0xEEAE then
            (on_binary_payload s (drop 2 payload), [OnBinaryPayload (drop 2 payload)])
          else (Inr (), []))"

section \<open>The polling loop\<close>

text \<open>
  The send branch of a tick, \<open>self._send_data(self._queue.pop(0))\<close>: the argument is
  evaluated first, so a missing \<open>_queue\<close> or an empty list raises before the transport
  is called; once popped, the frame is gone from the queue whatever the transport does.
\<close>

definition work_queue :: "transport \<Rightarrow> conn \<Rightarrow> (exn + unit) \<times> conn \<times> event list" where
  "work_queue io s =
     (case queue s of
        None \<Rightarrow> (Inl AttributeError, s, [])
      | Some [] \<Rightarrow> (Inl IndexError, s, [])
      | Some (frame # rest) \<Rightarrow>
          (case send_data io frame of
             Inl e \<Rightarrow> (Inl e, s\<lparr>queue := Some rest\<rparr>, [SendData frame])
           | Inr _ \<Rightarrow> (Inr (), s\<lparr>queue := Some rest\<rparr>, [SendData frame])))"

text \<open>
  One tick, after the sleep has elapsed:
  \<open>self._handle_data(result) if (result := self._check()) else self._send_data(...)\<close>.
  The condition is Python truthiness: \<open>None\<close> and \<open>b''\<close> are both false.
\<close>

definition tick :: "transport \<Rightarrow> conn \<Rightarrow> (exn + unit) \<times> conn \<times> event list" where
  "tick io s =
     (case check io of
        Inl e \<Rightarrow> (Inl e, s, [])
      | Inr None \<Rightarrow> work_queue io s
      | Inr (Some result) \<Rightarrow>
          if result \<noteq> [] then
            (case handle_data s result of
               (r, evs) \<Rightarrow> (r, s, HandleData result # evs))
          else work_queue io s)"

text \<open>
  \<open>_run\<close>, driven through a script with one transport behaviour per tick. When the script
  is used up the loop is left suspended in its sleep, task still \<open>Pending\<close>. A
  cancellation requested while the loop sleeps surfaces as \<open>CancelledError\<close> at the
  \<open>await\<close> and is swallowed by \<open>except asyncio.CancelledError: pass\<close>. Any other exception
  of the tick ends the task: what \<open>except Exception\<close> catches is wrapped in
  \<open>ConnectionDataFetchException\<close>, the rest leaves \<open>_run\<close> as it is.
\<close>

fun run :: "transport list \<Rightarrow> conn \<Rightarrow> conn \<times> event list" where
  "run [] s = (s, [])"
| "run (io # ios) s =
     (case task s of
        None \<Rightarrow> (s, [])
      | Some t \<Rightarrow>
          if status t \<noteq> Pending then (s, [])
          else if cancel_requested t then (s\<lparr>task := Some (t\<lparr>status := Ended\<rparr>)\<rparr>, [])
          else
            (case tick io s of
               (Inl e, s', evs) \<Rightarrow>
                 (s'\<lparr>task := Some (t\<lparr>status :=
                     (if e = CancelledError then Ended
                      else if is_Exception e then Failed (ConnectionDataFetchException e)
                      else Failed e)\<rparr>)\<rparr>, evs)
             | (Inr _, s', evs) \<Rightarrow>
                 (case run ios s' of (s'', evs') \<Rightarrow> (s'', evs @ evs'))))"

section \<open>Stopping\<close>

text \<open>
  \<open>Task.cancel()\<close>: returns \<open>False\<close> on a task that is done and otherwise records the
  request; it does not raise.
\<close>

definition task_cancel :: "asyncio_task \<Rightarrow> bool \<times> asyncio_task" where
  "task_cancel t =
     (if status t \<noteq> Pending then (False, t) else (True, t\<lparr>cancel_requested := True\<rparr>))"

text \<open>\<open>stop\<close>: \<open>if self._task: self._task.cancel()\<close>.\<close>

definition stop :: "conn \<Rightarrow> exn + conn" where
  "stop s =
     (case task s of
        None \<Rightarrow> Inr s
      | Some t \<Rightarrow> Inr (s\<lparr>task := Some (snd (task_cancel t))\<rparr>))"

section \<open>Observations and fixtures\<close>

text \<open>
  \<open>returns\<close> holds when a call came back without raising. \<open>is_send\<close> picks the calls
  of the transport's send operation out of a trace, \<open>is_receive\<close> the dispatch of received
  data and the callbacks it makes.
\<close>

fun returns :: "exn + 'a \<Rightarrow> bool" where
  "returns (Inr _) = True"
| "returns (Inl _) = False"

fun is_send :: "event \<Rightarrow> bool" where
  "is_send (SendData _) = True"
| "is_send _ = False"

fun is_receive :: "event \<Rightarrow> bool" where
  "is_receive (SendData _) = False"
| "is_receive _ = True"

text \<open>
  For concrete runs: a connection with callbacks that return, a task that is pending and
  \<open>_queue\<close> assigned as given (as a transport subclass that creates the list would leave
  it); and a line on which nothing arrives and every send succeeds.
\<close>

definition quiet_conn :: "bytes list option \<Rightarrow> conn" where
  "quiet_conn q = (Connection_init (\<lambda>_ _. Inr ()) (\<lambda>_. Inr ())) \<lparr>queue := q\<rparr>"

definition idle_line :: transport where
  "idle_line = \<lparr>check = Inr None, send_data = (\<lambda>_. Inr True)\<rparr>"

text \<open>
  A caller's use of the two public send methods: one call, what it encodes, whether it
  asks for \<open>send_immediately\<close>, and a sequence of calls made one after the other, which
  stops at the first that raises.
\<close>

datatype call = SendCommand int "64 word" bool | SendBinaryPayload bytes bool

fun perform :: "call \<Rightarrow> conn \<Rightarrow> exn + conn" where
  "perform (SendCommand command throttle send_immediately) s =
     send_command command throttle send_immediately s"
| "perform (SendBinaryPayload binary_payload send_immediately) s =
     send_binary_payload binary_payload send_immediately s"

fun perform_all :: "call list \<Rightarrow> conn \<Rightarrow> exn + conn" where
  "perform_all [] s = Inr s"
| "perform_all (c # cs) s =
     (case perform c s of Inl e \<Rightarrow> Inl e | Inr s' \<Rightarrow> perform_all cs s')"

fun frame_of :: "call \<Rightarrow> exn + bytes" where
  "frame_of (SendCommand command throttle _) = struct_pack_HBf 0xEEAF command throttle"
| "frame_of (SendBinaryPayload binary_payload _) =
     (case struct_pack_H 0xEEAE of
        Inl e \<Rightarrow> Inl e
      | Inr magic \<Rightarrow> Inr (magic @ binary_payload))"

fun immediate :: "call \<Rightarrow> bool" where
  "immediate (SendCommand _ _ send_immediately) = send_immediately"
| "immediate (SendBinaryPayload _ send_immediately) = send_immediately"

text \<open>
  The binary32 data as Python floats. \<open>binary32_fields\<close> and \<open>binary64_fields\<close> say that
  the fields fit their widths. \<open>same_value\<close> is the binary64 datum with the value of a
  binary32 datum, a NaN keeping its sign and all its fraction bits, so that
  \<open>double_of_binary32 f\<close> is the float that is representable as the binary32 pattern
  \<open>f\<close>. A NaN is signalling when its top fraction bit is clear; \<open>quiet\<close> sets that bit.
\<close>

definition binary32_fields :: "fields \<Rightarrow> bool" where
  "binary32_fields x = (case x of (s, e, m) \<Rightarrow> e < 2 ^ 8 \<and> m < 2 ^ 23)"

definition binary64_fields :: "fields \<Rightarrow> bool" where
  "binary64_fields x = (case x of (s, e, m) \<Rightarrow> e < 2 ^ 11 \<and> m < 2 ^ 52)"

definition same_value :: "fields \<Rightarrow> fields" where
  "same_value x =
     (case x of (s, e, m) \<Rightarrow>
        if e = 255 then (s, 2047, m * 2 ^ 29)
        else if e = 0 then
          (if m = 0 then (s, 0, 0)
           else (s, bit_length m + 873, m * 2 ^ (53 - bit_length m) - 2 ^ 52))
        else (s, e + 896, m * 2 ^ 29))"

definition double_of_binary32 :: "32 word \<Rightarrow> 64 word" where
  "double_of_binary32 f = encode64 (same_value (decode32 f))"

definition quiet :: "fields \<Rightarrow> fields" where
  "quiet x =
     (case x of (s, e, m) \<Rightarrow>
        if e = 255 \<and> m \<noteq> 0 then (s, e, m mod 2 ^ 22 + 2 ^ 22) else (s, e, m))"

definition quiet_nan32 :: "32 word \<Rightarrow> 32 word" where
  "quiet_nan32 f = encode32 (quiet (decode32 f))"

definition is_signalling_nan32 :: "32 word \<Rightarrow> bool" where
  "is_signalling_nan32 f =
     (case decode32 f of (s, e, m) \<Rightarrow> e = 255 \<and> m \<noteq> 0 \<and> m < 2 ^ 22)"

section \<open>Facts about the two formats\<close>

declare bit_length.simps [simp del]

lemma bit_length_bounds:
  "0 < n \<Longrightarrow> 2 ^ (bit_length n - 1) \<le> n \<and> n < 2 ^ bit_length n"
proof (induction n rule: bit_length.induct)
  case (1 n)
  show ?case
  proof (cases "n div 2 = 0")
    case True
    with "1.prems" have "n = 1" by auto
    then show ?thesis by (simp add: bit_length.simps)
  next
    case False
    then have pos: "0 < n div 2" by simp
    with "1.IH" "1.prems" have ih: "2 ^ (bit_length (n div 2) - 1) \<le> n div 2"
      "n div 2 < 2 ^ bit_length (n div 2)" by auto
    have bl: "bit_length n = Suc (bit_length (n div 2))"
      using "1.prems" by (subst bit_length.simps) simp
    have pos': "0 < bit_length (n div 2)"
      using pos by (subst bit_length.simps) simp
    then obtain k where k: "bit_length (n div 2) = Suc k"
      by (cases "bit_length (n div 2)") auto
    from ih k have "2 ^ k \<le> n div 2" "n div 2 < 2 * 2 ^ k" by simp_all
    then have "2 * 2 ^ k \<le> n" "n < 2 * (2 * 2 ^ k)" by linarith+
    then show ?thesis by (simp add: bl k)
  qed
qed

lemma bit_length_le:
  assumes "0 < m" and "m < 2 ^ k"
  shows "0 < bit_length m \<and> bit_length m \<le> k"
proof -
  from bit_length_bounds [OF assms(1)] have lo: "2 ^ (bit_length m - 1) \<le> m" by simp
  have pos: "0 < bit_length m"
    using assms(1) by (subst bit_length.simps) simp
  from lo assms(2) have "(2::nat) ^ (bit_length m - 1) < 2 ^ k" by linarith
  then have "bit_length m - 1 < k" by simp
  with pos show ?thesis by linarith
qed

lemma round_half_even_exact: "round_half_even (q * 2 ^ k) k = q"
  by (simp add: round_half_even_def)

lemma float_to_double_quiet: "float_to_double x = same_value (quiet x)"
  by (cases x) (simp add: float_to_double_def same_value_def quiet_def)

lemma quiet_fields: "binary32_fields x \<Longrightarrow> binary32_fields (quiet x)"
  by (cases x) (simp add: binary32_fields_def quiet_def)

lemma quiet_idem: "quiet (quiet x) = quiet x"
  by (cases x) (simp add: quiet_def)

lemma subnormal_scaled:
  assumes "0 < m" and "m < 2 ^ 23"
  shows "2 ^ 52 \<le> m * 2 ^ (53 - bit_length m)"
    and "m * 2 ^ (53 - bit_length m) < 2 ^ 53"
    and "0 < bit_length m" and "bit_length m \<le> 23"
proof -
  let ?b = "bit_length m"
  from bit_length_le [OF assms] show b: "0 < ?b" "?b \<le> 23" by simp_all
  from bit_length_bounds [OF assms(1)] have lo: "2 ^ (?b - 1) \<le> m" and hi: "m < 2 ^ ?b"
    by simp_all
  have e1: "(2::nat) ^ (?b - 1) * 2 ^ (53 - ?b) = 2 ^ 52"
    using b by (simp add: power_add [symmetric])
  have e2: "(2::nat) ^ ?b * 2 ^ (53 - ?b) = 2 ^ 53"
    using b by (simp add: power_add [symmetric])
  from lo have "2 ^ (?b - 1) * 2 ^ (53 - ?b) \<le> m * 2 ^ (53 - ?b)"
    by (rule mult_le_mono1)
  then show "2 ^ 52 \<le> m * 2 ^ (53 - ?b)" by (simp only: e1)
  from hi have "m * 2 ^ (53 - ?b) < 2 ^ ?b * 2 ^ (53 - ?b)"
    by simp
  then show "m * 2 ^ (53 - ?b) < 2 ^ 53" by (simp only: e2)
qed

lemma same_value_fields:
  assumes "binary32_fields x"
  shows "binary64_fields (same_value x)"
proof (cases x)
  case (fields s e m)
  with assms have r: "e < 256" "m < 2 ^ 23" by (simp_all add: binary32_fields_def)
  have m29: "m * 2 ^ 29 < 2 ^ 52"
  proof -
    have "m * 2 ^ 29 < 2 ^ 23 * 2 ^ 29" using r(2) by simp
    then show ?thesis by simp
  qed
  show ?thesis
  proof (cases "e = 0 \<and> 0 < m")
    case True
    from subnormal_scaled [OF _ r(2)] True
    have "m * 2 ^ (53 - bit_length m) < 2 ^ 53" "bit_length m \<le> 23" by simp_all
    then show ?thesis
      using True fields by (simp add: same_value_def binary64_fields_def)
  next
    case False
    then show ?thesis
      using fields r m29 by (auto simp: same_value_def binary64_fields_def)
  qed
qed

text \<open>
  Converting the float with the value of a binary32 datum gives that datum back, except
  that a signalling NaN comes out quiet; no rounding and no overflow occur.
\<close>

lemma double_to_float_same_value:
  assumes "binary32_fields x"
  shows "double_to_float (same_value x) = Inr (quiet x)"
proof (cases x)
  case (fields s e m)
  with assms have r: "e < 256" "m < 2 ^ 23" by (simp_all add: binary32_fields_def)
  consider (special) "e = 255" | (zero) "e = 0" "m = 0" | (sub) "e = 0" "0 < m"
    | (normal) "0 < e" "e < 255"
    using r(1) by linarith
  then show ?thesis
  proof cases
    case special
    then show ?thesis
      using fields by (simp add: same_value_def double_to_float_def quiet_def)
  next
    case zero
    then show ?thesis
      using fields by (simp add: same_value_def double_to_float_def quiet_def)
  next
    case sub
    let ?b = "bit_length m"
    note sc = subnormal_scaled [OF sub(2) r(2)]
    have sv: "same_value x = (s, ?b + 873, m * 2 ^ (53 - ?b) - 2 ^ 52)"
      using fields sub by (simp add: same_value_def)
    have sig: "2 ^ 52 + (m * 2 ^ (53 - ?b) - 2 ^ 52) = m * 2 ^ (53 - ?b)"
      using sc(1) by simp
    have sh: "926 - (?b + 873) = 53 - ?b"
      by simp
    have q: "round_half_even (2 ^ 52 + (m * 2 ^ (53 - ?b) - 2 ^ 52)) (926 - (?b + 873)) = m"
      by (simp only: sig sh round_half_even_exact)
    have e: "?b + 873 \<noteq> 2047" "?b + 873 \<noteq> 0" "?b + 873 \<le> 897" "?b + 873 - 897 = 0"
      using sc(4) by simp_all
    have "double_to_float (s, ?b + 873, m * 2 ^ (53 - ?b) - 2 ^ 52) = Inr (s, 0, m)"
      unfolding double_to_float_def using e q r(2) by (simp add: Let_def)
    then show ?thesis
      using sv fields sub by (simp add: quiet_def)
  next
    case normal
    have sv: "same_value x = (s, e + 896, m * 2 ^ 29)"
      using fields normal by (simp add: same_value_def)
    have sig: "2 ^ 52 + m * 2 ^ 29 = (2 ^ 23 + m) * 2 ^ 29"
      by (simp add: algebra_simps)
    have q: "round_half_even (2 ^ 52 + m * 2 ^ 29) 29 = 2 ^ 23 + m"
      by (simp only: sig round_half_even_exact)
    have bits: "(e + 896 - 897) * 2 ^ 23 + (2 ^ 23 + m) = e * 2 ^ 23 + m"
      using normal(1) by (cases e) (simp_all add: algebra_simps)
    have small: "e * 2 ^ 23 + m < 255 * 2 ^ 23"
    proof -
      have "e * 2 ^ 23 + m < e * 2 ^ 23 + 2 ^ 23" using r(2) by simp
      also have "\<dots> = (e + 1) * 2 ^ 23" by simp
      also have "\<dots> \<le> 255 * 2 ^ 23" using normal(2) by (intro mult_le_mono1) simp
      finally show ?thesis .
    qed
    have dm: "(e * 2 ^ 23 + m) div 2 ^ 23 = e" "(e * 2 ^ 23 + m) mod 2 ^ 23 = m"
      using r(2) by simp_all
    have sh: "(if e + 896 \<le> 897 then 926 - (e + 896) else 29) = 29"
      using normal(1) by auto
    have "double_to_float (s, e + 896, m * 2 ^ 29) = Inr (s, e, m)"
      unfolding double_to_float_def Let_def prod.case sh q bits
      using normal small dm by simp
    then show ?thesis
      using sv fields normal by (simp add: quiet_def)
  qed
qed

lemma nat_fields_fields_nat:
  fixes e m eb mb :: nat and s :: bool
  assumes "e < 2 ^ eb" and "m < 2 ^ mb"
  shows "nat_fields eb mb (fields_nat eb mb (s, e, m)) = (s, e, m)"
    and "fields_nat eb mb (s, e, m) < 2 ^ Suc (eb + mb)"
proof -
  let ?n = "(if s then 2 ^ (eb + mb) else 0) + e * 2 ^ mb + m"
  have n: "?n = ((if s then 2 ^ eb else 0) + e) * 2 ^ mb + m"
    by (simp add: power_add algebra_simps)
  have em: "e * 2 ^ mb + m < 2 ^ (eb + mb)"
  proof -
    have "e * 2 ^ mb + m < e * 2 ^ mb + 2 ^ mb" using assms(2) by simp
    also have "\<dots> = (e + 1) * 2 ^ mb" by simp
    also have "\<dots> \<le> 2 ^ eb * 2 ^ mb" using assms(1) by (intro mult_le_mono1) simp
    finally show ?thesis by (simp add: power_add)
  qed
  have top: "(2 ^ (eb + mb) \<le> ?n) = s"
    using em by auto
  have d: "?n div 2 ^ mb = (if s then 2 ^ eb else 0) + e"
    unfolding n using assms(2) by simp
  have ex: "?n div 2 ^ mb mod 2 ^ eb = e"
    unfolding d using assms(1) by simp
  have ma: "?n mod 2 ^ mb = m"
    unfolding n using assms(2) by simp
  show "nat_fields eb mb (fields_nat eb mb (s, e, m)) = (s, e, m)"
    unfolding nat_fields_def fields_nat_def prod.case top ex ma ..
  show "fields_nat eb mb (s, e, m) < 2 ^ Suc (eb + mb)"
    unfolding fields_nat_def prod.case using em by simp
qed

lemma fields_nat_nat_fields:
  fixes n eb mb :: nat
  assumes "n < 2 ^ Suc (eb + mb)"
  shows "fields_nat eb mb (nat_fields eb mb n) = n"
proof -
  let ?k = "n div 2 ^ mb"
  have k: "?k < 2 * 2 ^ eb"
    using assms by (simp add: less_mult_imp_div_less power_add algebra_simps)
  have top: "(2 ^ (eb + mb) \<le> n) = (2 ^ eb \<le> ?k)"
    by (simp add: less_eq_div_iff_mult_less_eq power_add)
  have km: "(if 2 ^ eb \<le> ?k then 2 ^ eb else 0) + ?k mod 2 ^ eb = ?k"
  proof (cases "2 ^ eb \<le> ?k")
    case True
    then have "?k mod 2 ^ eb = (?k - 2 ^ eb) mod 2 ^ eb" by (simp add: le_mod_geq)
    also have "\<dots> = ?k - 2 ^ eb" using k True by simp
    finally show ?thesis using True by simp
  next
    case False
    then show ?thesis by simp
  qed
  have "(if 2 ^ (eb + mb) \<le> n then 2 ^ (eb + mb) else 0) + ?k mod 2 ^ eb * 2 ^ mb
          = ((if 2 ^ eb \<le> ?k then 2 ^ eb else 0) + ?k mod 2 ^ eb) * 2 ^ mb"
    unfolding top by (simp add: power_add algebra_simps)
  also have "\<dots> = ?k * 2 ^ mb" by (simp only: km)
  finally have "(if 2 ^ (eb + mb) \<le> n then 2 ^ (eb + mb) else 0) + ?k mod 2 ^ eb * 2 ^ mb
          = ?k * 2 ^ mb" .
  moreover have "?k * 2 ^ mb + n mod 2 ^ mb = n"
    by (rule div_mult_mod_eq)
  ultimately show ?thesis
    unfolding fields_nat_def nat_fields_def prod.case by linarith
qed

lemma unat_word_of_nat_small:
  "k < 2 ^ LENGTH('a) \<Longrightarrow> unat (word_of_nat k :: 'a::len word) = k"
  by (simp add: unat_of_nat)

lemma decode32_fields: "binary32_fields (decode32 w)"
  by (simp add: decode32_def nat_fields_def binary32_fields_def)

lemma encode32_decode32: "encode32 (decode32 w) = w"
proof -
  have "unat w < 2 ^ Suc (8 + 23)"
    using unsigned_less [of w, where 'a = nat] by simp
  from fields_nat_nat_fields [OF this] show ?thesis
    unfolding encode32_def decode32_def by simp
qed

lemma decode32_encode32:
  assumes "binary32_fields x"
  shows "decode32 (encode32 x) = x"
proof (cases x)
  case (fields s e m)
  with assms have r: "e < 2 ^ 8" "m < 2 ^ 23" by (simp_all add: binary32_fields_def)
  note j = nat_fields_fields_nat [OF r, of s]
  have "fields_nat 8 23 (s, e, m) < 2 ^ LENGTH(32)" using j(2) by simp
  from unat_word_of_nat_small [OF this] show ?thesis
    unfolding decode32_def encode32_def fields by (simp only: j(1))
qed

lemma decode64_encode64:
  assumes "binary64_fields x"
  shows "decode64 (encode64 x) = x"
proof (cases x)
  case (fields s e m)
  with assms have r: "e < 2 ^ 11" "m < 2 ^ 52" by (simp_all add: binary64_fields_def)
  note j = nat_fields_fields_nat [OF r, of s]
  have "fields_nat 11 52 (s, e, m) < 2 ^ LENGTH(64)" using j(2) by simp
  from unat_word_of_nat_small [OF this] show ?thesis
    unfolding decode64_def encode64_def fields by (simp only: j(1))
qed

lemma quiet_nan32_idem: "quiet_nan32 (quiet_nan32 f) = quiet_nan32 f"
  by (simp add: quiet_nan32_def decode32_encode32 quiet_fields decode32_fields quiet_idem)

lemma quiet_nan32_id:
  assumes "\<not> is_signalling_nan32 f"
  shows "quiet_nan32 f = f"
proof -
  obtain s e m where x: "decode32 f = (s, e, m)" by (cases "decode32 f")
  from decode32_fields [of f] x have m: "m < 2 ^ 23" by (simp add: binary32_fields_def)
  have "quiet (s, e, m) = (s, e, m)"
  proof (cases "e = 255 \<and> m \<noteq> 0")
    case True
    with assms x have "2 ^ 22 \<le> m" by (simp add: is_signalling_nan32_def)
    with m have "m mod 2 ^ 22 = m - 2 ^ 22"
      by (simp add: le_mod_geq)
    with True \<open>2 ^ 22 \<le> m\<close> show ?thesis by (simp add: quiet_def)
  next
    case False
    then show ?thesis by (auto simp: quiet_def)
  qed
  then show ?thesis
    using x encode32_decode32 [of f] by (simp add: quiet_nan32_def)
qed

section \<open>The frame codec\<close>

lemma be32_word_bytes:
  "be32_word (ucast (drop_bit 24 w)) (ucast (drop_bit 16 w))
     (ucast (drop_bit 8 w)) (ucast w) = (w :: 32 word)"
proof (rule bit_word_eqI)
  fix n :: nat
  assume n: "n < LENGTH(32)"
  consider "n < 8" | "8 \<le> n" "n < 16" | "16 \<le> n" "n < 24" | "24 \<le> n"
    by linarith
  then show "bit (be32_word (ucast (drop_bit 24 w)) (ucast (drop_bit 16 w))
                    (ucast (drop_bit 8 w)) (ucast w)) n = bit w n"
    using n by cases (auto simp: be32_word_def bit_simps)
qed

lemma struct_pack_f_binary32:
  "struct_pack_f (double_of_binary32 f) = Inr (be32_bytes (quiet_nan32 f))"
  by (simp add: struct_pack_f_def double_of_binary32_def quiet_nan32_def
      decode64_encode64 same_value_fields decode32_fields double_to_float_same_value)

lemma struct_unpack_f_binary32:
  "struct_unpack_f (ucast (drop_bit 24 g)) (ucast (drop_bit 16 g)) (ucast (drop_bit 8 g))
     (ucast g) = double_of_binary32 (quiet_nan32 g)"
  by (simp add: struct_unpack_f_def be32_word_bytes float_to_double_quiet
      double_of_binary32_def quiet_nan32_def decode32_encode32 quiet_fields decode32_fields)

lemma uint_word_of_int_u8: "0 \<le> c \<Longrightarrow> c \<le> 255 \<Longrightarrow> uint (word_of_int c :: 8 word) = c"
  by (simp add: uint_word_of_int take_bit_int_eq_self)

lemma struct_pack_HBf_command:
  "0 \<le> c \<Longrightarrow> c \<le> 255 \<Longrightarrow>
   struct_pack_HBf 0xEEAF c (double_of_binary32 f)
     = Inr ([0xEE, 0xAF, word_of_int c] @ be32_bytes (quiet_nan32 f))"
  by (simp add: struct_pack_HBf_def struct_pack_H_def struct_pack_B_def
      struct_pack_f_binary32)

lemma struct_unpack_HBf_command:
  "0 \<le> c \<Longrightarrow> c \<le> 255 \<Longrightarrow>
   struct_unpack_HBf ([0xEE, 0xAF, word_of_int c] @ be32_bytes g)
     = Inr (0xEEAF, c, double_of_binary32 (quiet_nan32 g))"
  by (simp add: struct_unpack_HBf_def be32_bytes_def struct_unpack_f_binary32
      uint_word_of_int_u8)

lemma handle_data_command_frame:
  "0 \<le> c \<Longrightarrow> c \<le> 255 \<Longrightarrow>
   handle_data r ([0xEE, 0xAF, word_of_int c] @ be32_bytes g)
     = (on_command_payload r c (double_of_binary32 (quiet_nan32 g)),
        [OnCommandPayload c (double_of_binary32 (quiet_nan32 g))])"
  using struct_unpack_HBf_command [of c g]
  by (simp add: handle_data_def struct_unpack_H_def be32_bytes_def)

lemma send_command_enqueue:
  "0 \<le> c \<Longrightarrow> c \<le> 255 \<Longrightarrow>
   send_command c (double_of_binary32 f) imm s
     = enqueue ([0xEE, 0xAF, word_of_int c] @ be32_bytes (quiet_nan32 f)) imm s"
  by (simp add: send_command_def struct_pack_HBf_command)

lemma send_binary_payload_enqueue:
  "send_binary_payload p imm s = enqueue ([0xEE, 0xAE] @ p) imm s"
  by (simp add: send_binary_payload_def struct_pack_H_def)

lemma enqueue_Some:
  "queue s = Some q \<Longrightarrow>
   enqueue f imm s = Inr (s\<lparr>queue := Some (if imm then f # q else q @ [f])\<rparr>)"
  by (simp add: enqueue_def)

lemma eval_binary32_075:
  "double_of_binary32 0x3F400000 = 0x3FE8000000000000"
  "\<not> is_signalling_nan32 0x3F400000"
  "be32_bytes 0x3F400000 = [0x3F, 0x40, 0, 0]"
  by (simp_all add: double_of_binary32_def decode32_def encode64_def nat_fields_def
      fields_nat_def same_value_def is_signalling_nan32_def be32_bytes_def)

text \<open>
  C3, as stated, fails for a throttle that is a signalling NaN. The float with the bits
  \<open>7FF4000000000000\<close> is representable as the binary32 pattern \<open>7FA00000\<close>, but
  \<open>send_command\<close> writes it as \<open>7FE00000\<close>, and the command callback receives the
  float \<open>7FFC000000000000\<close>: the conversions made by \<open>struct\<close> set the quiet bit.
\<close>

theorem signalling_nan_round_trip_counterexample:
  "double_of_binary32 0x7FA00000 = 0x7FF4000000000000
   \<and> send_command 5 0x7FF4000000000000 False (quiet_conn (Some []))
       = Inr (quiet_conn (Some [[0xEE, 0xAF, 5, 0x7F, 0xE0, 0, 0]]))
   \<and> handle_data (quiet_conn (Some [])) [0xEE, 0xAF, 5, 0x7F, 0xE0, 0, 0]
       = (Inr (), [OnCommandPayload 5 0x7FFC000000000000])
   \<and> (0x7FFC000000000000 :: 64 word) \<noteq> 0x7FF4000000000000"
proof -
  have a: "double_of_binary32 0x7FA00000 = 0x7FF4000000000000"
    by (simp add: double_of_binary32_def decode32_def encode64_def nat_fields_def
        fields_nat_def same_value_def)
  have p: "struct_pack_f 0x7FF4000000000000 = Inr [0x7F, 0xE0, 0, 0]"
    by (simp add: struct_pack_f_def decode64_def nat_fields_def double_to_float_def
        encode32_def fields_nat_def be32_bytes_def)
  have b: "send_command 5 0x7FF4000000000000 False (quiet_conn (Some []))
       = Inr (quiet_conn (Some [[0xEE, 0xAF, 5, 0x7F, 0xE0, 0, 0]]))"
    by (simp add: send_command_def struct_pack_HBf_def struct_pack_H_def struct_pack_B_def p
        enqueue_def quiet_conn_def Connection_init_def)
  have u: "struct_unpack_f 0x7F 0xE0 0 0 = 0x7FFC000000000000"
    by (simp add: struct_unpack_f_def be32_word_def decode32_def nat_fields_def
        float_to_double_def encode64_def fields_nat_def)
  have c: "handle_data (quiet_conn (Some [])) [0xEE, 0xAF, 5, 0x7F, 0xE0, 0, 0]
       = (Inr (), [OnCommandPayload 5 0x7FFC000000000000])"
    by (simp add: handle_data_def struct_unpack_H_def struct_unpack_HBf_def u
        quiet_conn_def Connection_init_def)
  have d: "(0x7FFC000000000000 :: 64 word) \<noteq> 0x7FF4000000000000"
    by simp
  from a b c d show ?thesis by blast
qed

text \<open>
  C3, amended. For every command in \<open>0..255\<close> and every throttle that is representable
  in binary32, \<open>send_command\<close> on a connection that has a queue enqueues a frame of seven
  octets: the magic, the command, and the binary32 pattern of the throttle with a
  signalling NaN made quiet. Handing that frame to \<open>_handle_data\<close>, or to a tick as the
  probe's result, makes exactly one call, the command callback with the same command and
  the float of that pattern. Unless the throttle is a signalling NaN, this is the throttle
  itself, bit for bit.
\<close>

theorem command_round_trip:
  assumes "0 \<le> c" and "c \<le> 255" and "queue s = Some q"
  shows "\<exists>frame. frame = [0xEE, 0xAF, word_of_int c] @ be32_bytes (quiet_nan32 f)
           \<and> length frame = 7
           \<and> send_command c (double_of_binary32 f) imm s
               = Inr (s\<lparr>queue := Some (if imm then frame # q else q @ [frame])\<rparr>)
           \<and> handle_data r frame
               = (on_command_payload r c (double_of_binary32 (quiet_nan32 f)),
                  [OnCommandPayload c (double_of_binary32 (quiet_nan32 f))])
           \<and> tick \<lparr>check = Inr (Some frame), send_data = sd\<rparr> r
               = (on_command_payload r c (double_of_binary32 (quiet_nan32 f)), r,
                  [HandleData frame, OnCommandPayload c (double_of_binary32 (quiet_nan32 f))])
           \<and> (\<not> is_signalling_nan32 f \<longrightarrow>
                 quiet_nan32 f = f
                 \<and> handle_data r frame
                     = (on_command_payload r c (double_of_binary32 f),
                        [OnCommandPayload c (double_of_binary32 f)]))"
proof -
  let ?frame = "[0xEE, 0xAF, word_of_int c] @ be32_bytes (quiet_nan32 f)"
  let ?t = "double_of_binary32 (quiet_nan32 f)"
  have len: "length ?frame = 7"
    by (simp add: be32_bytes_def)
  have snd: "send_command c (double_of_binary32 f) imm s
               = Inr (s\<lparr>queue := Some (if imm then ?frame # q else q @ [?frame])\<rparr>)"
    using assms by (simp only: send_command_enqueue enqueue_Some)
  have h: "handle_data r ?frame = (on_command_payload r c ?t, [OnCommandPayload c ?t])"
    using handle_data_command_frame [OF assms(1,2), of r "quiet_nan32 f"]
    by (simp only: quiet_nan32_idem)
  have tk: "tick \<lparr>check = Inr (Some ?frame), send_data = sd\<rparr> r
      = (on_command_payload r c ?t, r, [HandleData ?frame, OnCommandPayload c ?t])"
    unfolding tick_def using h by simp
  have ex: "\<not> is_signalling_nan32 f \<longrightarrow>
              quiet_nan32 f = f
              \<and> handle_data r ?frame
                  = (on_command_payload r c (double_of_binary32 f),
                     [OnCommandPayload c (double_of_binary32 f)])"
  proof
    assume "\<not> is_signalling_nan32 f"
    then have q: "quiet_nan32 f = f" by (rule quiet_nan32_id)
    with h show "quiet_nan32 f = f
              \<and> handle_data r ?frame
                  = (on_command_payload r c (double_of_binary32 f),
                     [OnCommandPayload c (double_of_binary32 f)])"
      by simp
  qed
  from len snd h tk ex show ?thesis by blast
qed

theorem command_round_trip_witness:
  "send_command 5 0x3FE8000000000000 False (quiet_conn (Some []))
     = Inr (quiet_conn (Some [[0xEE, 0xAF, 5, 0x3F, 0x40, 0, 0]]))
   \<and> handle_data (quiet_conn (Some [])) [0xEE, 0xAF, 5, 0x3F, 0x40, 0, 0]
       = (Inr (), [OnCommandPayload 5 0x3FE8000000000000])"
proof -
  have p1: "(0::int) \<le> 5" and p2: "(5::int) \<le> 255" by simp_all
  have p3: "queue (quiet_conn (Some [])) = Some []"
    by (simp add: quiet_conn_def)
  from command_round_trip [OF p1 p2 p3, of "0x3F400000" False "quiet_conn (Some [])"]
  obtain frame where f: "frame = [0xEE, 0xAF, word_of_int 5] @ be32_bytes (quiet_nan32 0x3F400000)"
    and s: "send_command 5 (double_of_binary32 0x3F400000) False (quiet_conn (Some []))
               = Inr ((quiet_conn (Some []))\<lparr>queue := Some (if False then frame # [] else [] @ [frame])\<rparr>)"
    and h: "\<not> is_signalling_nan32 0x3F400000 \<longrightarrow>
                 quiet_nan32 0x3F400000 = 0x3F400000
                 \<and> handle_data (quiet_conn (Some [])) frame
                     = (on_command_payload (quiet_conn (Some [])) 5 (double_of_binary32 0x3F400000),
                        [OnCommandPayload 5 (double_of_binary32 0x3F400000)])"
    by blast
  from h eval_binary32_075(2) have q: "quiet_nan32 0x3F400000 = 0x3F400000"
    and h': "handle_data (quiet_conn (Some [])) frame
                     = (on_command_payload (quiet_conn (Some [])) 5 (double_of_binary32 0x3F400000),
                        [OnCommandPayload 5 (double_of_binary32 0x3F400000)])"
    by blast+
  have fr: "frame = [0xEE, 0xAF, 5, 0x3F, 0x40, 0, 0]"
    unfolding f q eval_binary32_075(3) by simp
  have cb: "on_command_payload (quiet_conn (Some [])) 5 0x3FE8000000000000 = Inr ()"
    by (simp add: quiet_conn_def Connection_init_def)
  have st: "(quiet_conn (Some []))\<lparr>queue := Some [[0xEE, 0xAF, 5, 0x3F, 0x40, 0, 0]]\<rparr>
             = quiet_conn (Some [[0xEE, 0xAF, 5, 0x3F, 0x40, 0, 0]])"
    by (simp add: quiet_conn_def)
  from s have "send_command 5 0x3FE8000000000000 False (quiet_conn (Some []))
     = Inr (quiet_conn (Some [[0xEE, 0xAF, 5, 0x3F, 0x40, 0, 0]]))"
    unfolding fr eval_binary32_075(1) by (simp add: st)
  moreover from h' have "handle_data (quiet_conn (Some [])) [0xEE, 0xAF, 5, 0x3F, 0x40, 0, 0]
       = (Inr (), [OnCommandPayload 5 0x3FE8000000000000])"
    unfolding fr eval_binary32_075(1) cb .
  ultimately show ?thesis by blast
qed

section \<open>The send queue\<close>

lemma work_queue_pop:
  assumes "queue s = Some (f # q)" and "send_data io f = Inr r"
  shows "work_queue io s = (Inr (), s\<lparr>queue := Some q\<rparr>, [SendData f])"
  using assms by (simp add: work_queue_def)

lemma tick_idle:
  assumes "check io = Inr None"
  shows "tick io s = work_queue io s"
  using assms by (simp add: tick_def)

lemma run_idle_drains:
  assumes "task s = Some t" and "status t = Pending" and "\<not> cancel_requested t"
    and "queue s = Some q" and "length ios \<le> length q"
    and "\<forall>io\<in>set ios. check io = Inr None \<and> (\<forall>d. returns (send_data io d))"
  shows "run ios s = (s\<lparr>queue := Some (drop (length ios) q)\<rparr>,
                       map SendData (take (length ios) q))"
  using assms
proof (induction ios arbitrary: s q)
  case Nil
  then show ?case by simp
next
  case (Cons io ios)
  from Cons.prems(5) obtain f q' where q: "q = f # q'"
    by (cases q) auto
  from Cons.prems(6) have chk: "check io = Inr None"
    and snd: "returns (send_data io f)" by auto
  from snd obtain r where r: "send_data io f = Inr r"
    by (cases "send_data io f") auto
  let ?s' = "s\<lparr>queue := Some q'\<rparr>"
  have tk: "tick io s = (Inr (), ?s', [SendData f])"
    using chk r Cons.prems(4) q by (simp add: tick_idle work_queue_pop)
  have ih: "run ios ?s' = (?s'\<lparr>queue := Some (drop (length ios) q')\<rparr>,
                       map SendData (take (length ios) q'))"
    using Cons.prems q by (intro Cons.IH) auto
  show ?case
    using Cons.prems(1-3) tk ih q by simp
qed

lemma handle_data_no_send: "\<not> list_ex is_send (snd (handle_data s p))"
  by (simp add: handle_data_def split: sum.splits prod.splits)

lemma work_queue_no_receive: "\<not> list_ex is_receive (snd (snd (work_queue io s)))"
  by (simp add: work_queue_def split: option.splits list.splits sum.splits)

lemma perform_enqueue:
  "frame_of c = Inr f \<Longrightarrow> perform c s = enqueue f (immediate c) s"
  by (cases c) (auto simp: send_command_def send_binary_payload_def split: sum.splits)

lemma perform_Some:
  assumes "queue s = Some q" and "frame_of c = Inr f"
  shows "perform c s = Inr (s\<lparr>queue := Some (if immediate c then f # q else q @ [f])\<rparr>)"
  using assms by (simp add: perform_enqueue enqueue_def)

lemma perform_all_same_priority:
  assumes "queue s = Some q" and "map frame_of cs = map Inr fs"
    and "list_all (\<lambda>c. immediate c = imm) cs"
  shows "perform_all cs s = Inr (s\<lparr>queue := Some (if imm then rev fs @ q else q @ fs)\<rparr>)"
  using assms
proof (induction cs arbitrary: s q fs)
  case Nil
  then have "s\<lparr>queue := Some q\<rparr> = s" by (cases s) simp
  with Nil show ?case by simp
next
  case (Cons c cs)
  from Cons.prems(2) obtain f fs' where fs: "fs = f # fs'" and f: "frame_of c = Inr f"
    and rest: "map frame_of cs = map Inr fs'"
    by (cases fs) auto
  from Cons.prems(3) have c: "immediate c = imm" and cs: "list_all (\<lambda>c. immediate c = imm) cs"
    by simp_all
  let ?q1 = "if imm then f # q else q @ [f]"
  let ?s1 = "s\<lparr>queue := Some ?q1\<rparr>"
  have p: "perform c s = Inr ?s1"
    using perform_Some [OF Cons.prems(1) f] c by simp
  have q1: "queue ?s1 = Some ?q1" by simp
  have "perform_all cs ?s1 = Inr (?s1\<lparr>queue := Some (if imm then rev fs' @ ?q1 else ?q1 @ fs')\<rparr>)"
    by (rule Cons.IH [OF q1 rest cs])
  then show ?case
    using p by (simp add: fs)
qed

text \<open>
  C1. On a connection as \<open>__init__\<close> leaves it, both send methods raise
  \<open>AttributeError\<close> instead of queueing the frame, for every throttle that is a
  binary32 value (0.75 among them) and every payload: the constructor never creates
  \<open>_queue\<close>.
\<close>

theorem send_on_constructed_connection_raises:
  "send_command 5 (double_of_binary32 f) imm (Connection_init cmd_cb bin_cb) = Inl AttributeError
   \<and> send_command 5 0x3FE8000000000000 imm (Connection_init cmd_cb bin_cb) = Inl AttributeError
   \<and> send_binary_payload p imm (Connection_init cmd_cb bin_cb) = Inl AttributeError"
proof -
  have "send_command 5 (double_of_binary32 g) imm (Connection_init cmd_cb bin_cb)
          = Inl AttributeError" for g
    by (simp add: send_command_enqueue enqueue_def Connection_init_def)
  from this [of f] this [of "0x3F400000"] show ?thesis
    by (simp add: eval_binary32_075(1) send_binary_payload_enqueue enqueue_def
        Connection_init_def)
qed

text \<open>
  C2. A tick with no inbound data on an empty queue does not pass quietly: \<open>pop(0)\<close> on
  the empty list raises \<open>IndexError\<close>, no send is made, and \<open>_run\<close> ends the task with
  \<open>ConnectionDataFetchException\<close>, whatever ticks were still to come.
\<close>

theorem idle_tick_on_empty_queue_fails:
  "tick idle_line (quiet_conn (Some [])) = (Inl IndexError, quiet_conn (Some []), [])
   \<and> run (idle_line # ios) (quiet_conn (Some []))
       = ((quiet_conn (Some []))
            \<lparr>task := Some \<lparr>status = Failed (ConnectionDataFetchException IndexError),
                            cancel_requested = False\<rparr>\<rparr>, [])"
  by (simp add: tick_def work_queue_def idle_line_def quiet_conn_def Connection_init_def)

text \<open>
  C4. On a live connection with an empty queue, let three calls of the send methods
  (\<open>send_command\<close> or \<open>send_binary_payload\<close>, in any mix) encode the frames \<open>a\<close>, \<open>b\<close>,
  \<open>c\<close>, the first two without \<open>send_immediately\<close>. Then the three calls return, and the
  next three idle ticks hand the frames to the transport in the order \<open>a\<close>, \<open>b\<close>, \<open>c\<close>
  when the third call is not immediate, and \<open>c\<close>, \<open>a\<close>, \<open>b\<close> when it is.
\<close>

theorem queue_ordering:
  assumes "task s = Some t" and "status t = Pending" and "\<not> cancel_requested t"
    and "queue s = Some []"
    and "\<forall>io\<in>set [io1, io2, io3]. check io = Inr None \<and> (\<forall>d. returns (send_data io d))"
    and "frame_of A = Inr a" and "frame_of B = Inr b" and "frame_of C = Inr c"
    and "\<not> immediate A" and "\<not> immediate B"
  shows "\<exists>s1 s2 s3. perform A s = Inr s1 \<and> perform B s1 = Inr s2 \<and> perform C s2 = Inr s3
           \<and> snd (run [io1, io2, io3] s3)
               = (if immediate C then [SendData c, SendData a, SendData b]
                  else [SendData a, SendData b, SendData c])"
proof -
  let ?s1 = "s\<lparr>queue := Some [a]\<rparr>"
  let ?s2 = "s\<lparr>queue := Some [a, b]\<rparr>"
  let ?q3 = "if immediate C then [c, a, b] else [a, b, c]"
  let ?s3 = "s\<lparr>queue := Some ?q3\<rparr>"
  have e1: "perform A s = Inr ?s1"
    using perform_Some [OF assms(4,6)] assms(9) by simp
  have e2: "perform B ?s1 = Inr ?s2"
    using perform_Some [of ?s1 "[a]" B b] assms(7,10) by simp
  have e3: "perform C ?s2 = Inr ?s3"
    using perform_Some [of ?s2 "[a, b]" C c] assms(8) by simp
  have len: "length [io1, io2, io3] \<le> length ?q3"
    by simp
  have t3: "task ?s3 = Some t"
    using assms(1) by simp
  have q3: "queue ?s3 = Some ?q3"
    by simp
  note d = run_idle_drains [OF t3 assms(2,3) q3 len assms(5)]
  have r: "snd (run [io1, io2, io3] ?s3)
             = (if immediate C then [SendData c, SendData a, SendData b]
                else [SendData a, SendData b, SendData c])"
    unfolding d by simp
  from e1 e2 e3 r show ?thesis by blast
qed

theorem queue_ordering_witness:
  "\<exists>s1 s2 s3. perform (SendBinaryPayload [1] False) (quiet_conn (Some [])) = Inr s1
      \<and> perform (SendCommand 2 0x3FE8000000000000 False) s1 = Inr s2
      \<and> perform (SendBinaryPayload [3] True) s2 = Inr s3
      \<and> snd (run [idle_line, idle_line, idle_line] s3)
          = [SendData [0xEE, 0xAE, 3], SendData [0xEE, 0xAE, 1],
             SendData [0xEE, 0xAF, 2, 0x3F, 0x40, 0, 0]]"
proof -
  let ?t = "\<lparr>status = Pending, cancel_requested = False\<rparr>"
  have p1: "task (quiet_conn (Some [])) = Some ?t" and p4: "queue (quiet_conn (Some [])) = Some []"
    by (simp_all add: quiet_conn_def Connection_init_def)
  have p2: "status ?t = Pending" and p3: "\<not> cancel_requested ?t"
    by simp_all
  have p5: "\<forall>io\<in>set [idle_line, idle_line, idle_line].
              check io = Inr None \<and> (\<forall>d. returns (send_data io d))"
    by (simp add: idle_line_def)
  have fa: "frame_of (SendBinaryPayload [1] False) = Inr [0xEE, 0xAE, 1]"
    and fc: "frame_of (SendBinaryPayload [3] True) = Inr [0xEE, 0xAE, 3]"
    by (simp_all add: struct_pack_H_def)
  have fb: "frame_of (SendCommand 2 0x3FE8000000000000 False)
              = Inr [0xEE, 0xAF, 2, 0x3F, 0x40, 0, 0]"
    using struct_pack_HBf_command [of 2 "0x3F400000"]
    by (simp add: eval_binary32_075 quiet_nan32_id)
  have na: "\<not> immediate (SendBinaryPayload [1] False)"
    and nb: "\<not> immediate (SendCommand 2 0x3FE8000000000000 False)"
    by simp_all
  from queue_ordering [OF p1 p2 p3 p4 p5 fa fb fc na nb]
  show ?thesis by (simp only: immediate.simps if_True)
qed

text \<open>
  C5, as stated, fails: a binary payload and then a command, both sent with
  \<open>send_immediately\<close> and with no tick in between, leave the queue command first, so
  the frame enqueued first is dequeued second.
\<close>

theorem immediate_fifo_counterexample:
  "send_binary_payload [1] True (quiet_conn (Some []))
     = Inr (quiet_conn (Some [[0xEE, 0xAE, 1]]))
   \<and> send_command 2 0x3FE8000000000000 True (quiet_conn (Some [[0xEE, 0xAE, 1]]))
       = Inr (quiet_conn (Some [[0xEE, 0xAF, 2, 0x3F, 0x40, 0, 0], [0xEE, 0xAE, 1]]))
   \<and> snd (run [idle_line, idle_line]
            (quiet_conn (Some [[0xEE, 0xAF, 2, 0x3F, 0x40, 0, 0], [0xEE, 0xAE, 1]])))
       = [SendData [0xEE, 0xAF, 2, 0x3F, 0x40, 0, 0], SendData [0xEE, 0xAE, 1]]"
proof -
  have a: "send_binary_payload [1] True (quiet_conn (Some []))
     = Inr (quiet_conn (Some [[0xEE, 0xAE, 1]]))"
    by (simp add: send_binary_payload_enqueue enqueue_def quiet_conn_def)
  have "send_command 2 (double_of_binary32 0x3F400000) True (quiet_conn (Some [[0xEE, 0xAE, 1]]))
       = Inr (quiet_conn (Some [[0xEE, 0xAF, 2, 0x3F, 0x40, 0, 0], [0xEE, 0xAE, 1]]))"
    by (simp add: send_command_enqueue enqueue_def quiet_conn_def quiet_nan32_id
        eval_binary32_075(2,3))
  then have b: "send_command 2 0x3FE8000000000000 True (quiet_conn (Some [[0xEE, 0xAE, 1]]))
       = Inr (quiet_conn (Some [[0xEE, 0xAF, 2, 0x3F, 0x40, 0, 0], [0xEE, 0xAE, 1]]))"
    by (simp only: eval_binary32_075(1))
  have c: "snd (run [idle_line, idle_line]
            (quiet_conn (Some [[0xEE, 0xAF, 2, 0x3F, 0x40, 0, 0], [0xEE, 0xAE, 1]])))
       = [SendData [0xEE, 0xAF, 2, 0x3F, 0x40, 0, 0], SendData [0xEE, 0xAE, 1]]"
    by (simp add: quiet_conn_def Connection_init_def idle_line_def tick_def work_queue_def)
  from a b c show ?thesis by blast
qed

text \<open>
  C5, amended. Let any number of calls of the send methods, all with the same
  \<open>send_immediately\<close>, be made on a live connection with no tick in between, encoding the
  frames \<open>fs\<close>. Without \<open>send_immediately\<close> the frames are queued behind what was queued,
  in the order of the calls, and idle ticks send them in that order. With
  \<open>send_immediately\<close> they are queued in front of what was queued in the reverse order
  of the calls, so the frame of the latest call is sent first.
\<close>

theorem same_priority_order:
  assumes "task s = Some t" and "status t = Pending" and "\<not> cancel_requested t"
    and "queue s = Some q"
    and "map frame_of cs = map Inr fs"
    and "list_all (\<lambda>c. immediate c = imm) cs"
    and "\<forall>io\<in>set ios. check io = Inr None \<and> (\<forall>d. returns (send_data io d))"
    and "length ios \<le> length q + length fs"
  shows "\<exists>s'. perform_all cs s = Inr s'
           \<and> queue s' = Some (if imm then rev fs @ q else q @ fs)
           \<and> snd (run ios s')
               = map SendData (take (length ios) (if imm then rev fs @ q else q @ fs))"
proof -
  let ?q' = "if imm then rev fs @ q else q @ fs"
  let ?s' = "s\<lparr>queue := Some ?q'\<rparr>"
  have p: "perform_all cs s = Inr ?s'"
    by (rule perform_all_same_priority [OF assms(4-6)])
  have t': "task ?s' = Some t"
    using assms(1) by simp
  have q': "queue ?s' = Some ?q'"
    by simp
  have len: "length ios \<le> length ?q'"
    using assms(8) by simp
  note d = run_idle_drains [OF t' assms(2,3) q' len assms(7)]
  have "snd (run ios ?s') = map SendData (take (length ios) ?q')"
    unfolding d by simp
  with p q' show ?thesis by blast
qed

theorem same_priority_order_witness:
  "(\<exists>s'. perform_all [SendBinaryPayload [1] True, SendCommand 2 0x3FE8000000000000 True,
                       SendBinaryPayload [3] True] (quiet_conn (Some [[0xEE, 0xAE, 9]])) = Inr s'
       \<and> queue s' = Some [[0xEE, 0xAE, 3], [0xEE, 0xAF, 2, 0x3F, 0x40, 0, 0], [0xEE, 0xAE, 1],
                           [0xEE, 0xAE, 9]]
       \<and> snd (run [idle_line, idle_line, idle_line] s')
           = [SendData [0xEE, 0xAE, 3], SendData [0xEE, 0xAF, 2, 0x3F, 0x40, 0, 0],
              SendData [0xEE, 0xAE, 1]])
   \<and> (\<exists>s'. perform_all [SendBinaryPayload [1] False, SendCommand 2 0x3FE8000000000000 False,
                         SendBinaryPayload [3] False] (quiet_conn (Some [[0xEE, 0xAE, 9]])) = Inr s'
       \<and> queue s' = Some [[0xEE, 0xAE, 9], [0xEE, 0xAE, 1], [0xEE, 0xAF, 2, 0x3F, 0x40, 0, 0],
                           [0xEE, 0xAE, 3]]
       \<and> snd (run [idle_line, idle_line, idle_line] s')
           = [SendData [0xEE, 0xAE, 9], SendData [0xEE, 0xAE, 1],
              SendData [0xEE, 0xAF, 2, 0x3F, 0x40, 0, 0]])"
proof -
  let ?t = "\<lparr>status = Pending, cancel_requested = False\<rparr>"
  let ?s = "quiet_conn (Some [[0xEE, 0xAE, 9]])"
  let ?fs = "[[0xEE, 0xAE, 1], [0xEE, 0xAF, 2, 0x3F, 0x40, 0, 0], [0xEE, 0xAE, 3]] :: bytes list"
  have p1: "task ?s = Some ?t" and p4: "queue ?s = Some [[0xEE, 0xAE, 9]]"
    by (simp_all add: quiet_conn_def Connection_init_def)
  have p2: "status ?t = Pending" and p3: "\<not> cancel_requested ?t"
    by simp_all
  have fb: "struct_pack_HBf 0xEEAF 2 0x3FE8000000000000 = Inr [0xEE, 0xAF, 2, 0x3F, 0x40, 0, 0]"
    using struct_pack_HBf_command [of 2 "0x3F400000"]
    by (simp add: eval_binary32_075 quiet_nan32_id)
  have p5: "map frame_of [SendBinaryPayload [1] i, SendCommand 2 0x3FE8000000000000 i,
                          SendBinaryPayload [3] i] = map Inr ?fs" for i
    by (simp add: struct_pack_H_def fb)
  have p6: "list_all (\<lambda>c. immediate c = i) [SendBinaryPayload [1] i,
              SendCommand 2 0x3FE8000000000000 i, SendBinaryPayload [3] i]" for i
    by simp
  have p7: "\<forall>io\<in>set [idle_line, idle_line, idle_line].
              check io = Inr None \<and> (\<forall>d. returns (send_data io d))"
    by (simp add: idle_line_def)
  have p8: "length [idle_line, idle_line, idle_line] \<le> length [[0xEE, 0xAE, 9 :: 8 word]] + length ?fs"
    by simp
  from same_priority_order [OF p1 p2 p3 p4 p5 p6 p7 p8, of True]
  have a: "\<exists>s'. perform_all [SendBinaryPayload [1] True, SendCommand 2 0x3FE8000000000000 True,
                       SendBinaryPayload [3] True] ?s = Inr s'
       \<and> queue s' = Some [[0xEE, 0xAE, 3], [0xEE, 0xAF, 2, 0x3F, 0x40, 0, 0], [0xEE, 0xAE, 1],
                           [0xEE, 0xAE, 9]]
       \<and> snd (run [idle_line, idle_line, idle_line] s')
           = [SendData [0xEE, 0xAE, 3], SendData [0xEE, 0xAF, 2, 0x3F, 0x40, 0, 0],
              SendData [0xEE, 0xAE, 1]]"
    by (simp only: if_True rev.simps append.simps list.size take_Suc_Cons take_0 list.map
        length_Cons)
      simp
  from same_priority_order [OF p1 p2 p3 p4 p5 p6 p7 p8, of False]
  have b: "\<exists>s'. perform_all [SendBinaryPayload [1] False, SendCommand 2 0x3FE8000000000000 False,
                         SendBinaryPayload [3] False] ?s = Inr s'
       \<and> queue s' = Some [[0xEE, 0xAE, 9], [0xEE, 0xAE, 1], [0xEE, 0xAF, 2, 0x3F, 0x40, 0, 0],
                           [0xEE, 0xAE, 3]]
       \<and> snd (run [idle_line, idle_line, idle_line] s')
           = [SendData [0xEE, 0xAE, 9], SendData [0xEE, 0xAE, 1],
              SendData [0xEE, 0xAF, 2, 0x3F, 0x40, 0, 0]]"
    by (simp only: if_False rev.simps append.simps list.size take_Suc_Cons take_0 list.map
        length_Cons)
      simp
  from a b show ?thesis by blast
qed

section \<open>Ticks\<close>

lemma tick_receive:
  assumes "check io = Inr (Some p)" and "p \<noteq> []"
  shows "tick io s = (fst (handle_data s p), s, HandleData p # snd (handle_data s p))"
  using assms by (simp add: tick_def split: prod.splits)

lemma tick_cases:
  "(\<exists>e. tick io s = (Inl e, s, []))
   \<or> tick io s = work_queue io s
   \<or> (\<exists>p. p \<noteq> [] \<and> check io = Inr (Some p)
          \<and> tick io s = (fst (handle_data s p), s, HandleData p # snd (handle_data s p)))"
  by (cases "check io") (auto simp: tick_def split: option.splits prod.splits)

lemma run_failed_tick:
  assumes "task s = Some t" and "status t = Pending" and "\<not> cancel_requested t"
    and "tick io s = (Inl e, s', evs)" and "is_Exception e"
  shows "run (io # ios) s
           = (s'\<lparr>task := Some (t\<lparr>status := Failed (ConnectionDataFetchException e)\<rparr>)\<rparr>, evs)"
proof -
  from assms(5) have "e \<noteq> CancelledError" by auto
  with assms show ?thesis by simp
qed

lemma run_good_tick:
  assumes "task s = Some t" and "status t = Pending" and "\<not> cancel_requested t"
    and "tick io s = (Inr (), s', evs)"
  shows "run (io # ios) s = (fst (run ios s'), evs @ snd (run ios s'))"
  using assms by (simp add: split_beta)

text \<open>
  C6. In any tick: if the probe returns data (a non-empty byte string), the trace of the
  tick holds no call of the transport's send; and if the trace holds a send, it holds
  neither the dispatch of received data nor a callback.
\<close>

theorem half_duplex_exclusivity:
  "(\<forall>p. check io = Inr (Some p) \<and> p \<noteq> [] \<longrightarrow> \<not> list_ex is_send (snd (snd (tick io s))))
   \<and> (list_ex is_send (snd (snd (tick io s))) \<longrightarrow> \<not> list_ex is_receive (snd (snd (tick io s))))"
proof (intro conjI allI impI)
  fix p
  assume "check io = Inr (Some p) \<and> p \<noteq> []"
  then show "\<not> list_ex is_send (snd (snd (tick io s)))"
    using handle_data_no_send [of s p] by (simp add: tick_receive)
next
  assume snd: "list_ex is_send (snd (snd (tick io s)))"
  from tick_cases [of io s] show "\<not> list_ex is_receive (snd (snd (tick io s)))"
  proof (elim disjE exE conjE)
    fix e assume "tick io s = (Inl e, s, [])"
    then show ?thesis by simp
  next
    assume "tick io s = work_queue io s"
    then show ?thesis using work_queue_no_receive [of io s] by simp
  next
    fix p assume "tick io s = (fst (handle_data s p), s, HandleData p # snd (handle_data s p))"
    with snd handle_data_no_send [of s p] show ?thesis by simp
  qed
qed

theorem half_duplex_exclusivity_witness:
  "\<not> list_ex is_send (snd (snd (tick \<lparr>check = Inr (Some [0xEE, 0xAE, 7]), send_data = (\<lambda>_. Inr True)\<rparr>
                                      (quiet_conn (Some [[1]])))))
   \<and> list_ex is_send (snd (snd (tick idle_line (quiet_conn (Some [[1]])))))
   \<and> \<not> list_ex is_receive (snd (snd (tick idle_line (quiet_conn (Some [[1]])))))"
proof -
  have a: "list_ex is_send (snd (snd (tick idle_line (quiet_conn (Some [[1]])))))"
    by (simp add: tick_def work_queue_def idle_line_def quiet_conn_def Connection_init_def)
  have b: "check \<lparr>check = Inr (Some [0xEE, 0xAE, 7 :: 8 word]), send_data = (\<lambda>_. Inr True)\<rparr>
             = Inr (Some [0xEE, 0xAE, 7]) \<and> [0xEE, 0xAE, 7 :: 8 word] \<noteq> []"
    by simp
  from half_duplex_exclusivity [of "\<lparr>check = Inr (Some [0xEE, 0xAE, 7]), send_data = (\<lambda>_. Inr True)\<rparr>"
      "quiet_conn (Some [[1]])"] b
  have c: "\<not> list_ex is_send (snd (snd (tick \<lparr>check = Inr (Some [0xEE, 0xAE, 7]), send_data = (\<lambda>_. Inr True)\<rparr>
                                      (quiet_conn (Some [[1]])))))"
    by blast
  from half_duplex_exclusivity [of idle_line "quiet_conn (Some [[1]])"] a
  have d: "\<not> list_ex is_receive (snd (snd (tick idle_line (quiet_conn (Some [[1]])))))"
    by blast
  from a c d show ?thesis by blast
qed

text \<open>
  C10. A probe that returns the empty byte string gives the same tick as a probe that
  returns \<open>None\<close>: the send branch is taken, and no received data is dispatched and no
  callback made.
\<close>

theorem empty_probe_takes_send_branch:
  "tick (io\<lparr>check := Inr (Some [])\<rparr>) s = tick (io\<lparr>check := Inr None\<rparr>) s
   \<and> tick (io\<lparr>check := Inr (Some [])\<rparr>) s = work_queue io s
   \<and> \<not> list_ex is_receive (snd (snd (tick (io\<lparr>check := Inr (Some [])\<rparr>) s)))"
proof -
  have w: "work_queue (io\<lparr>check := c\<rparr>) s = work_queue io s" for c
    by (simp add: work_queue_def split: option.splits list.splits)
  have "tick (io\<lparr>check := Inr (Some [])\<rparr>) s = work_queue io s"
    and "tick (io\<lparr>check := Inr None\<rparr>) s = work_queue io s"
    by (simp_all add: tick_def w)
  then show ?thesis using work_queue_no_receive [of io s] by simp
qed

theorem empty_probe_takes_send_branch_witness:
  "tick (idle_line\<lparr>check := Inr (Some [])\<rparr>) (quiet_conn (Some [[1]]))
     = (Inr (), quiet_conn (Some []), [SendData [1]])"
proof -
  have "tick (idle_line\<lparr>check := Inr (Some [])\<rparr>) (quiet_conn (Some [[1]]))
          = work_queue idle_line (quiet_conn (Some [[1]]))"
    using empty_probe_takes_send_branch [of idle_line "quiet_conn (Some [[1]])"] by blast
  also have "work_queue idle_line (quiet_conn (Some [[1]]))
          = (Inr (), quiet_conn (Some []), [SendData [1]])"
    by (simp add: work_queue_def idle_line_def quiet_conn_def Connection_init_def)
  finally show ?thesis .
qed

section \<open>Frames that are not well formed\<close>

lemma be16_div: "(uint x * 256 + uint y) div 256 = uint x" for x y :: "8 word"
proof -
  have "0 \<le> uint y" "uint y < 256"
    using uint_lt2p [of y] by simp_all
  then show ?thesis by simp
qed

lemma be16_mod: "(uint x * 256 + uint y) mod 256 = uint y" for x y :: "8 word"
proof -
  have "0 \<le> uint y" "uint y < 256"
    using uint_lt2p [of y] by simp_all
  then show ?thesis by simp
qed

lemma header_eq_iff:
  fixes h1 h2 a b :: "8 word"
  shows "uint h1 * 256 + uint h2 = uint a * 256 + uint b \<longleftrightarrow> h1 = a \<and> h2 = b"
proof
  assume eq: "uint h1 * 256 + uint h2 = uint a * 256 + uint b"
  from arg_cong [OF eq, of "\<lambda>k. k div 256"] have "uint h1 = uint a"
    by (simp only: be16_div)
  moreover from arg_cong [OF eq, of "\<lambda>k. k mod 256"] have "uint h2 = uint b"
    by (simp only: be16_mod)
  ultimately show "h1 = a \<and> h2 = b"
    by (simp add: word_uint_eq_iff)
qed simp

lemma header_command_iff:
  "uint h1 * 256 + uint h2 = 0xEEAF \<longleftrightarrow> (h1 :: 8 word) = 0xEE \<and> h2 = (0xAF :: 8 word)"
  using header_eq_iff [of h1 h2 "0xEE" "0xAF"] by simp

lemma header_binary_iff:
  "uint h1 * 256 + uint h2 = 0xEEAE \<longleftrightarrow> (h1 :: 8 word) = 0xEE \<and> h2 = (0xAE :: 8 word)"
  using header_eq_iff [of h1 h2 "0xEE" "0xAE"] by simp

text \<open>
  C7. A received frame that starts with the magic \<open>0xEEAF\<close> and whose length is not seven
  makes no callback; \<open>_handle_data\<close> raises \<open>struct.error\<close>, and \<open>_run\<close> reports it by
  ending the task with \<open>ConnectionDataFetchException\<close> carrying that error.
\<close>

theorem malformed_command_frame_reported:
  assumes "length rest \<noteq> 5" and "check io = Inr (Some (0xEE # 0xAF # rest))"
    and "task s = Some t" and "status t = Pending" and "\<not> cancel_requested t"
  shows "handle_data s (0xEE # 0xAF # rest) = (Inl StructError, [])
       \<and> tick io s = (Inl StructError, s, [HandleData (0xEE # 0xAF # rest)])
       \<and> run (io # ios) s
           = (s\<lparr>task := Some (t\<lparr>status := Failed (ConnectionDataFetchException StructError)\<rparr>)\<rparr>,
              [HandleData (0xEE # 0xAF # rest)])"
proof -
  have h: "handle_data s (0xEE # 0xAF # rest) = (Inl StructError, [])"
    using assms(1) by (simp add: handle_data_def struct_unpack_H_def struct_unpack_HBf_def)
  have tk: "tick io s = (Inl StructError, s, [HandleData (0xEE # 0xAF # rest)])"
    using assms(2) h by (simp add: tick_def)
  from run_failed_tick [OF assms(3-5) tk] h tk show ?thesis by simp
qed

theorem malformed_command_frame_reported_witness:
  "run [\<lparr>check = Inr (Some [0xEE, 0xAF, 5, 0x3F, 0x40, 0]), send_data = (\<lambda>_. Inr True)\<rparr>, idle_line]
       (quiet_conn (Some [[1]]))
     = ((quiet_conn (Some [[1]]))
          \<lparr>task := Some (\<lparr>status = Pending, cancel_requested = False\<rparr>
                  \<lparr>status := Failed (ConnectionDataFetchException StructError)\<rparr>)\<rparr>,
        [HandleData [0xEE, 0xAF, 5, 0x3F, 0x40, 0]])"
proof -
  let ?io = "\<lparr>check = Inr (Some [0xEE, 0xAF, 5, 0x3F, 0x40, 0]), send_data = (\<lambda>_. Inr True)\<rparr>"
  let ?t = "\<lparr>status = Pending, cancel_requested = False\<rparr>"
  have p1: "length [5, 0x3F, 0x40, 0 :: 8 word] \<noteq> 5" by simp
  have p2: "check ?io = Inr (Some (0xEE # 0xAF # [5, 0x3F, 0x40, 0]))" by simp
  have p3: "task (quiet_conn (Some [[1]])) = Some ?t"
    by (simp add: quiet_conn_def Connection_init_def)
  have p4: "status ?t = Pending" and p5: "\<not> cancel_requested ?t" by simp_all
  from malformed_command_frame_reported [OF p1 p2 p3 p4 p5, of "[idle_line]"]
  show ?thesis by blast
qed

text \<open>
  C8. A received frame whose first two octets are neither \<open>0xEEAF\<close> nor \<open>0xEEAE\<close> makes
  no callback and raises nothing, and the loop goes on with the ticks that follow, from
  the same state.
\<close>

theorem unknown_magic_dropped:
  assumes "\<not> (h1 = 0xEE \<and> h2 = 0xAF)" and "\<not> (h1 = 0xEE \<and> h2 = 0xAE)"
    and "check io = Inr (Some (h1 # h2 # rest))"
    and "task s = Some t" and "status t = Pending" and "\<not> cancel_requested t"
  shows "handle_data s (h1 # h2 # rest) = (Inr (), [])
       \<and> tick io s = (Inr (), s, [HandleData (h1 # h2 # rest)])
       \<and> run (io # ios) s = (fst (run ios s), HandleData (h1 # h2 # rest) # snd (run ios s))"
proof -
  have h: "handle_data s (h1 # h2 # rest) = (Inr (), [])"
    using assms(1,2)
    by (auto simp add: handle_data_def struct_unpack_H_def header_command_iff header_binary_iff)
  have tk: "tick io s = (Inr (), s, [HandleData (h1 # h2 # rest)])"
    using assms(3) h by (simp add: tick_def)
  from run_good_tick [OF assms(4-6) tk] h tk show ?thesis by simp
qed

theorem unknown_magic_dropped_witness:
  "run [\<lparr>check = Inr (Some [0, 0, 9]), send_data = (\<lambda>_. Inr True)\<rparr>, idle_line]
       (quiet_conn (Some [[1]]))
     = (quiet_conn (Some []), [HandleData [0, 0, 9], SendData [1]])"
proof -
  let ?io = "\<lparr>check = Inr (Some [0, 0, 9]), send_data = (\<lambda>_. Inr True)\<rparr>"
  let ?t = "\<lparr>status = Pending, cancel_requested = False\<rparr>"
  have r: "run [idle_line] (quiet_conn (Some [[1]])) = (quiet_conn (Some []), [SendData [1]])"
    by (simp add: tick_def work_queue_def idle_line_def quiet_conn_def Connection_init_def)
  have p1: "\<not> ((0 :: 8 word) = 0xEE \<and> (0 :: 8 word) = 0xAF)"
    and p2: "\<not> ((0 :: 8 word) = 0xEE \<and> (0 :: 8 word) = 0xAE)" by simp_all
  have p3: "check ?io = Inr (Some (0 # 0 # [9]))" by simp
  have p4: "task (quiet_conn (Some [[1]])) = Some ?t"
    by (simp add: quiet_conn_def Connection_init_def)
  have p5: "status ?t = Pending" and p6: "\<not> cancel_requested ?t" by simp_all
  from unknown_magic_dropped [OF p1 p2 p3 p4 p5 p6, of "[idle_line]"]
  have "run [?io, idle_line] (quiet_conn (Some [[1]]))
     = (fst (run [idle_line] (quiet_conn (Some [[1]]))),
        HandleData [0, 0, 9] # snd (run [idle_line] (quiet_conn (Some [[1]]))))"
    by blast
  then show ?thesis by (simp only: r fst_conv snd_conv)
qed

section \<open>Cancellation\<close>

lemma run_no_task: "task s = None \<Longrightarrow> run ios s = (s, [])"
  by (cases ios) simp_all

lemma run_done: "task s = Some t \<Longrightarrow> status t \<noteq> Pending \<Longrightarrow> run ios s = (s, [])"
  by (cases ios) simp_all

lemma run_cancelled:
  "task s = Some t \<Longrightarrow> status t = Pending \<Longrightarrow> cancel_requested t \<Longrightarrow>
   run (io # ios) s = (s\<lparr>task := Some (t\<lparr>status := Ended\<rparr>)\<rparr>, [])"
  by simp

lemma run_after_cancel:
  assumes "task s = None \<or> (\<exists>t. task s = Some t \<and> (status t \<noteq> Pending \<or> cancel_requested t))"
  shows "snd (run ios s) = [] \<and> queue (fst (run ios s)) = queue s
       \<and> stop (fst (run ios s)) = Inr (fst (run ios s))"
proof (cases ios)
  case Nil
  with assms show ?thesis
    by (auto simp: stop_def task_cancel_def intro!: conn.equality asyncio_task.equality)
next
  case (Cons io ios')
  with assms show ?thesis
    by (auto simp: stop_def task_cancel_def)
qed

text \<open>
  C9. \<open>stop\<close> returns without raising; a second \<open>stop\<close> leaves the connection as the
  first did; after \<open>stop\<close> the loop makes no further call (no send, no dispatch, no
  callback) and pops nothing from the queue, whatever ticks were still to come; and
  \<open>stop\<close> after the loop has ended changes nothing.
\<close>

theorem stop_idempotent:
  "\<exists>s1. stop s = Inr s1 \<and> stop s1 = Inr s1
        \<and> snd (run ios s1) = [] \<and> queue (fst (run ios s1)) = queue s
        \<and> stop (fst (run ios s1)) = Inr (fst (run ios s1))"
proof (cases "task s")
  case None
  then have "stop s = Inr s" by (simp add: stop_def)
  with run_after_cancel [of s ios] None show ?thesis by auto
next
  case (Some t)
  let ?s1 = "s\<lparr>task := Some (snd (task_cancel t))\<rparr>"
  have a: "stop s = Inr ?s1" using Some by (simp add: stop_def)
  have b: "stop ?s1 = Inr ?s1" by (simp add: stop_def task_cancel_def)
  have "task ?s1 = None \<or> (\<exists>t. task ?s1 = Some t \<and> (status t \<noteq> Pending \<or> cancel_requested t))"
    by (simp add: task_cancel_def)
  from run_after_cancel [OF this, of ios] a b show ?thesis by auto
qed

theorem stop_idempotent_witness:
  "stop (quiet_conn (Some [[1]]))
     = Inr ((quiet_conn (Some [[1]]))\<lparr>task := Some \<lparr>status = Pending, cancel_requested = True\<rparr>\<rparr>)
   \<and> snd (run [idle_line] ((quiet_conn (Some [[1]]))\<lparr>task := Some \<lparr>status = Pending, cancel_requested = True\<rparr>\<rparr>)) = []
   \<and> snd (run [idle_line] (quiet_conn (Some [[1]]))) = [SendData [1]]"
proof -
  let ?x = "(quiet_conn (Some [[1]]))\<lparr>task := Some \<lparr>status = Pending, cancel_requested = True\<rparr>\<rparr>"
  have a: "stop (quiet_conn (Some [[1]])) = Inr ?x"
    by (simp add: stop_def task_cancel_def quiet_conn_def Connection_init_def)
  from stop_idempotent [of "quiet_conn (Some [[1]])" "[idle_line]"]
  obtain s1 where "stop (quiet_conn (Some [[1]])) = Inr s1" and "snd (run [idle_line] s1) = []"
    by blast
  with a have b: "snd (run [idle_line] ?x) = []" by simp
  have c: "snd (run [idle_line] (quiet_conn (Some [[1]]))) = [SendData [1]]"
    by (simp add: tick_def work_queue_def idle_line_def quiet_conn_def Connection_init_def)
  from a b c show ?thesis by blast
qed

end
